theory Spec2Isabelle
  imports Main
begin

section \<open>Characters and text\<close>

text \<open>
  A document is a Python \<open>str\<close>, modelled as a \<open>string\<close> (a list of characters); one
  \<open>char\<close> stands for one character of the Python string. Offsets count characters
  from the start of the document.
\<close>

abbreviation bslash :: char where "bslash \<equiv> CHR 0x5C"
abbreviation dollar :: char where "dollar \<equiv> CHR ''$''"
abbreviation newline :: char where "newline \<equiv> CHR 0x0A"

section \<open>The regular expressions of the source\<close>

text \<open>
  The source scans text with Python's \<open>re\<close> module. Only the constructs that occur in
  its three patterns are modelled: a literal string, \<open>.\<close> under \<open>re.DOTALL\<close> (any
  character, line breaks included), the negative look-behind \<open>(?<!c)\<close> for one character,
  a negative look-ahead \<open>(?!r)\<close>, concatenation and the lazy star \<open>r*?\<close>.
\<close>

datatype regex =
    Str string
  | AnyChar
  | NotBehind char
  | NotAhead regex
  | Seq regex regex
  | LazyStar regex

text \<open>
  A matcher state is the character just before the current position (\<open>None\<close> at the start
  of the text) and the text that remains. \<open>ends r st\<close> lists the states in which a match of
  \<open>r\<close> begun in \<open>st\<close> can end, in the order in which the backtracking matcher tries them:
  a lazy star tries to stop before it tries one more iteration.
\<close>

type_synonym mstate = "char option \<times> string"

fun eat :: "string \<Rightarrow> mstate \<Rightarrow> mstate list" where
  "eat [] st = [st]"
| "eat (c # cs) (p, []) = []"
| "eat (c # cs) (p, x # xs) = (if x = c then eat cs (Some x, xs) else [])"

fun lazy_iter :: "(mstate \<Rightarrow> mstate list) \<Rightarrow> nat \<Rightarrow> mstate \<Rightarrow> mstate list" where
  "lazy_iter step 0 st = [st]"
| "lazy_iter step (Suc n) st =
     st # concat (map (lazy_iter step n)
                      (filter (\<lambda>st'. length (snd st') < length (snd st)) (step st)))"

primrec ends :: "regex \<Rightarrow> mstate \<Rightarrow> mstate list" where
  "ends (Str s) st = eat s st"
| "ends AnyChar st = (case snd st of [] \<Rightarrow> [] | x # xs \<Rightarrow> [(Some x, xs)])"
| "ends (NotBehind c) st = (if fst st = Some c then [] else [st])"
| "ends (NotAhead r) st = (if ends r st = [] then [st] else [])"
| "ends (Seq a b) st = concat (map (ends b) (ends a st))"
| "ends (LazyStar r) st = lazy_iter (ends r) (Suc (length (snd st))) st"

text \<open>
  \<open>inline_pattern = r'(?<!\\)\$((?:(?!\$).)*?)(?<!\\)\$'\<close> and
  \<open>display_pattern = r'(?<!\\)\$\$((?:(?!\$\$).)*?)(?<!\\)\$\$'\<close>.
\<close>

definition inline_pattern :: regex where
  "inline_pattern =
     Seq (NotBehind bslash) (Seq (Str ''$'')
       (Seq (LazyStar (Seq (NotAhead (Str ''$'')) AnyChar))
            (Seq (NotBehind bslash) (Str ''$''))))"

definition display_pattern :: regex where
  "display_pattern =
     Seq (NotBehind bslash) (Seq (Str ''$$'')
       (Seq (LazyStar (Seq (NotAhead (Str ''$$'')) AnyChar))
            (Seq (NotBehind bslash) (Str ''$$''))))"

text \<open>
  \<open>re.finditer\<close>: the matches from left to right, each as \<open>(start, end)\<close>. The scan tries
  a match at the current position; after a match it goes on at the match's end, otherwise
  one character further. (After an empty match it also moves one character on; the patterns
  of the source never match the empty string.)
\<close>

function finditer_from :: "regex \<Rightarrow> nat \<Rightarrow> char option \<Rightarrow> string \<Rightarrow> (nat \<times> nat) list" where
  "finditer_from r pos prev rest =
     (case ends r (prev, rest) of
        [] \<Rightarrow> (case rest of [] \<Rightarrow> [] | c # cs \<Rightarrow> finditer_from r (Suc pos) (Some c) cs)
      | (prev', rest') # _ \<Rightarrow>
          if length rest' < length rest
          then (pos, pos + (length rest - length rest')) # finditer_from r (pos + (length rest - length rest')) prev' rest'
          else (pos, pos) # (case rest of [] \<Rightarrow> [] | c # cs \<Rightarrow> finditer_from r (Suc pos) (Some c) cs))"
  by pat_completeness auto
termination
  by (relation "measure (\<lambda>(r, pos, prev, rest). length rest)") auto

declare finditer_from.simps [simp del]

definition finditer :: "regex \<Rightarrow> string \<Rightarrow> (nat \<times> nat) list" where
  "finditer r content = finditer_from r 0 None content"

section \<open>The Equation Locator\<close>

text \<open>
  An entry of \<open>equations_data\<close> is the tuple
  \<open>(start_idx, end_idx, original_equation_str, is_display_math)\<close>.
\<close>

type_synonym span = "nat \<times> nat \<times> string \<times> bool"

abbreviation start_idx :: "span \<Rightarrow> nat" where "start_idx x \<equiv> fst x"
abbreviation end_idx :: "span \<Rightarrow> nat" where "end_idx x \<equiv> fst (snd x)"
abbreviation raw_text :: "span \<Rightarrow> string" where "raw_text x \<equiv> fst (snd (snd x))"
abbreviation is_display_math :: "span \<Rightarrow> bool" where "is_display_math x \<equiv> snd (snd (snd x))"

text \<open>\<open>match.group(0)\<close> is the slice \<open>content[start:end]\<close>.\<close>

definition group0 :: "string \<Rightarrow> nat \<times> nat \<Rightarrow> string" where
  "group0 content m = take (snd m - fst m) (drop (fst m) content)"

text \<open>The first loop of \<open>extract_equations_with_spans\<close>: every display match is recorded.\<close>

definition display_loop :: "string \<Rightarrow> span list" where
  "display_loop content =
     map (\<lambda>m. (fst m, snd m, group0 content m, True)) (finditer display_pattern content)"

text \<open>
  The second loop: an inline match is dropped when some entry already in
  \<open>equations_data\<close> contains it, and appended otherwise.
\<close>

definition is_overlap :: "span list \<Rightarrow> nat \<times> nat \<Rightarrow> bool" where
  "is_overlap equations_data m =
     list_ex (\<lambda>e. start_idx e \<le> fst m \<and> snd m \<le> end_idx e) equations_data"

fun inline_loop :: "string \<Rightarrow> span list \<Rightarrow> (nat \<times> nat) list \<Rightarrow> span list" where
  "inline_loop content equations_data [] = equations_data"
| "inline_loop content equations_data (m # ms) =
     inline_loop content
       (if is_overlap equations_data m then equations_data
        else equations_data @ [(fst m, snd m, group0 content m, False)]) ms"

text \<open>
  \<open>equations_data.sort(key=lambda x: x[0])\<close> is a stable sort on the start offset, as
  \<open>sort_key\<close> is.
\<close>

definition locate_equations :: "string \<Rightarrow> span list" where
  "locate_equations content =
     sort_key fst (inline_loop content (display_loop content) (finditer inline_pattern content))"

section \<open>Failures of reading a file\<close>

text \<open>
  What \<open>open(file_path, 'r', encoding='utf-8')\<close> followed by \<open>f.read()\<close> does is a
  parameter of the model: the file is missing (\<open>FileNotFoundError\<close>), reading or decoding
  raises another exception, or the text is returned.
\<close>

datatype read_result = FileNotFound | ReadFails | FileText string

type_synonym filesystem = "string \<Rightarrow> read_result"

text \<open>The lines the program prints, by the statement that prints them.\<close>

datatype message =
    MsgConverted string
  | MsgGenerationError string
  | MsgFileNotFound string
  | MsgReadError
  | MsgNoEquations string
  | MsgInvalidPrefix
  | MsgInvalidSyntax
  | MsgUnexpected
  | MsgInvalidDpi

text \<open>
  \<open>extract_equations_with_spans\<close>: both \<open>except\<close> branches print a line and fall through
  to \<open>return equations_data\<close>, which is still the empty list. The result is the printed
  lines and the returned list.
\<close>

definition extract_equations_with_spans :: "filesystem \<Rightarrow> string \<Rightarrow> message list \<times> span list" where
  "extract_equations_with_spans fs file_path =
     (case fs file_path of
        FileNotFound \<Rightarrow> ([MsgFileNotFound file_path], [])
      | ReadFails \<Rightarrow> ([MsgReadError], [])
      | FileText content \<Rightarrow> ([], locate_equations content))"

text \<open>
  File mode, from the call of the Locator to the check \<open>if not equations_data\<close>: the
  printed lines, and the spans to process (\<open>None\<close> for \<open>continue\<close>).
\<close>

definition file_mode_locate :: "filesystem \<Rightarrow> string \<Rightarrow> message list \<times> span list option" where
  "file_mode_locate fs file_path =
     (case extract_equations_with_spans fs file_path of
        (printed, equations_data) \<Rightarrow>
          if equations_data = [] then (printed @ [MsgNoEquations file_path], None)
          else (printed, Some equations_data))"

section \<open>The Document Rewriter\<close>

text \<open>\<open>sub in content\<close> on strings.\<close>

fun str_in :: "string \<Rightarrow> string \<Rightarrow> bool" where
  "str_in sub [] = (sub = [])"
| "str_in sub (x # xs) = (take (length sub) (x # xs) = sub \<or> str_in sub xs)"

definition usepackage_graphicx :: string where
  "usepackage_graphicx = bslash # ''usepackage{graphicx}''"

text \<open>
  \<open>re.search(r'(\\documentclass\{.*?\}.*?)(\\begin\{document\})', content, re.DOTALL)\<close>:
  the pattern is group 1 followed by group 2.
\<close>

definition documentclass_group :: regex where
  "documentclass_group =
     Seq (Str (bslash # ''documentclass{''))
       (Seq (LazyStar AnyChar) (Seq (Str ''}'') (LazyStar AnyChar)))"

definition begin_document_group :: regex where
  "begin_document_group = Str (bslash # ''begin{document}'')"

text \<open>
  \<open>re.search\<close> for a pattern of two groups: the leftmost position at which the pattern
  matches, and there the first match in backtracking order. The result is
  \<open>(start(1), end(1), end(2))\<close>; group 2 starts where group 1 ends.
\<close>

fun search2_from :: "regex \<Rightarrow> regex \<Rightarrow> nat \<Rightarrow> char option \<Rightarrow> string \<Rightarrow> (nat \<times> nat \<times> nat) option" where
  "search2_from g1 g2 pos prev [] =
     (case concat (map (\<lambda>m. map (Pair m) (ends g2 m)) (ends g1 (prev, []))) of
        [] \<Rightarrow> None
      | (m, e) # _ \<Rightarrow> Some (pos, pos, pos))"
| "search2_from g1 g2 pos prev (c # cs) =
     (case concat (map (\<lambda>m. map (Pair m) (ends g2 m)) (ends g1 (prev, c # cs))) of
        [] \<Rightarrow> search2_from g1 g2 (Suc pos) (Some c) cs
      | (m, e) # _ \<Rightarrow>
          Some (pos, pos + (length (c # cs) - length (snd m)),
                pos + (length (c # cs) - length (snd e))))"

definition slice :: "string \<Rightarrow> nat \<Rightarrow> nat \<Rightarrow> string" where
  "slice content i j = take (j - i) (drop i content)"

definition add_graphicx_package :: "string \<Rightarrow> string" where
  "add_graphicx_package content =
     (if \<not> str_in usepackage_graphicx content then
        (case search2_from documentclass_group begin_document_group 0 None content of
           Some (s1, e1, e2) \<Rightarrow>
             slice content s1 e1 @ (newline # usepackage_graphicx) @ slice content e1 e2
               @ drop e2 content
         | None \<Rightarrow> usepackage_graphicx @ [newline] @ content)
      else content)"







section \<open>The Equation Renderer\<close>

text \<open>
  The plotting library is outside the repository. \<open>latex_to_image\<close> calls it eight times,
  in this order; which call raises for given arguments, if any, is a parameter of the model.
\<close>

datatype backend_call =
    CallFigure | CallAddAxes | CallText | CallSetXticks | CallSetYticks | CallAxisOff
  | CallSavefig | CallClose

type_synonym backend = "string \<Rightarrow> string \<Rightarrow> int \<Rightarrow> backend_call option"

text \<open>
  The state the program acts on: the numbers of the figures the library holds open, the
  image files written so far, and the lines printed.
\<close>

record world =
  figures :: "nat list"
  files :: "string list"
  console :: "message list"

datatype outcome = Returned | Raised

text \<open>\<open>plt.figure\<close> without a number opens the figure numbered one above the largest open one.\<close>

definition new_figure :: "nat list \<Rightarrow> nat" where
  "new_figure figs = Suc (fold max figs 0)"

text \<open>
  \<open>latex_to_image\<close>: the \<open>try\<close> body opens a figure, draws, saves and closes it; the
  \<open>except\<close> clause prints and re-raises. \<open>plt.close(fig)\<close> is the last statement but one of
  the \<open>try\<close> body and the only place where the figure is closed.
\<close>

definition latex_to_image :: "backend \<Rightarrow> string \<Rightarrow> string \<Rightarrow> int \<Rightarrow> world \<Rightarrow> outcome \<times> world" where
  "latex_to_image be latex_equation output_filename dpi w =
     (let failing = be latex_equation output_filename dpi;
          except = (\<lambda>w'. (Raised, w'\<lparr>console := console w' @ [MsgGenerationError latex_equation]\<rparr>));
          fig = new_figure (figures w)
      in if failing = Some CallFigure then except w
         else let w1 = w\<lparr>figures := figures w @ [fig]\<rparr>
              in if failing \<in> {Some CallAddAxes, Some CallText, Some CallSetXticks,
                                Some CallSetYticks, Some CallAxisOff, Some CallSavefig}
                 then except w1
                 else let w2 = w1\<lparr>files := files w1 @ [output_filename]\<rparr>
                      in if failing = Some CallClose then except w2
                         else (Returned,
                               w2\<lparr>figures := remove1 fig (figures w2),
                                  console := console w2 @ [MsgConverted output_filename]\<rparr>))"

section \<open>Manual mode\<close>








section \<open>Conditions and examples used in the statements\<close>





text \<open>
  The character before the position reached after reading a text, and whether a text ends
  in a backslash (which escapes a delimiter that follows it).
\<close>

fun prev_after :: "char option \<Rightarrow> string \<Rightarrow> char option" where
  "prev_after p [] = p"
| "prev_after p (x # xs) = prev_after (Some x) xs"

definition escapes :: "string \<Rightarrow> bool" where
  "escapes s = (s \<noteq> [] \<and> last s = bslash)"

text \<open>A file system with one empty file, and a backend that rejects one malformed equation.\<close>

definition example_filesystem :: filesystem where
  "example_filesystem p = (if p = ''empty.tex'' then FileText [] else FileNotFound)"

definition rejecting_backend :: backend where
  "rejecting_backend latex_equation output_filename dpi =
     (if latex_equation = dollar # bslash # ''frac{$'' then Some CallSavefig else None)"

section \<open>The package declaration\<close>

lemma str_in_take: "take (length sub) xs = sub \<Longrightarrow> str_in sub xs"
  by (cases xs) auto

lemma str_in_here: "str_in sub (sub @ b)"
  by (rule str_in_take) simp

lemma str_in_append: "str_in sub (a @ sub @ b)"
proof (induction a)
  case Nil
  show ?case using str_in_here by simp
next
  case (Cons x a)
  then show ?case by simp
qed

lemma add_graphicx_package_declares: "str_in usepackage_graphicx (add_graphicx_package content)"
proof (cases "str_in usepackage_graphicx content")
  case True
  then show ?thesis by (simp add: add_graphicx_package_def)
next
  case False
  show ?thesis
  proof (cases "search2_from documentclass_group begin_document_group 0 None content")
    case None
    have "str_in usepackage_graphicx ([] @ usepackage_graphicx @ ([newline] @ content))"
      by (rule str_in_append)
    with False None show ?thesis by (simp add: add_graphicx_package_def)
  next
    case (Some t)
    obtain s1 e1 e2 where t: "t = (s1, e1, e2)" by (cases t) auto
    have "str_in usepackage_graphicx
            ((slice content s1 e1 @ [newline]) @ usepackage_graphicx @ (slice content e1 e2 @ drop e2 content))"
      by (rule str_in_append)
    with False Some t show ?thesis by (simp add: add_graphicx_package_def)
  qed
qed

lemma add_graphicx_package_present:
  "str_in usepackage_graphicx content \<Longrightarrow> add_graphicx_package content = content"
  by (simp add: add_graphicx_package_def)

text \<open>
  C8: for every document text, the result of one application of \<open>add_graphicx_package\<close>
  contains the declaration \<open>\usepackage{graphicx}\<close>; an application to a text that
  contains the declaration returns that text unchanged; so \<open>add_graphicx_package\<close> applied
  twice gives the same text as applied once.
\<close>

theorem add_graphicx_package_idempotent:
  "str_in usepackage_graphicx (add_graphicx_package content)
   \<and> (str_in usepackage_graphicx content \<longrightarrow> add_graphicx_package content = content)
   \<and> add_graphicx_package (add_graphicx_package content) = add_graphicx_package content"
proof (intro conjI impI)
  show "str_in usepackage_graphicx (add_graphicx_package content)"
    by (rule add_graphicx_package_declares)
next
  assume "str_in usepackage_graphicx content"
  then show "add_graphicx_package content = content"
    by (rule add_graphicx_package_present)
next
  show "add_graphicx_package (add_graphicx_package content) = add_graphicx_package content"
    using add_graphicx_package_declares [of content] by (rule add_graphicx_package_present)
qed

theorem add_graphicx_package_idempotent_witness:
  "\<not> str_in usepackage_graphicx ''abc''
   \<and> add_graphicx_package ''abc'' = bslash # ''usepackage{graphicx}'' @ [newline] @ ''abc''
   \<and> str_in usepackage_graphicx (add_graphicx_package ''abc'')
   \<and> str_in usepackage_graphicx (bslash # ''usepackage{graphicx}'' @ [newline] @ ''abc'')
   \<and> add_graphicx_package (bslash # ''usepackage{graphicx}'' @ [newline] @ ''abc'')
       = bslash # ''usepackage{graphicx}'' @ [newline] @ ''abc''
   \<and> add_graphicx_package (add_graphicx_package ''abc'') = add_graphicx_package ''abc''"
proof -
  let ?r = "bslash # ''usepackage{graphicx}'' @ [newline] @ ''abc''"
  have n: "\<not> str_in usepackage_graphicx ''abc''" by code_simp
  have v: "add_graphicx_package ''abc'' = ?r" by code_simp
  have h: "str_in usepackage_graphicx ?r" by code_simp
  note t1 = add_graphicx_package_idempotent [of "''abc''"]
  note t2 = add_graphicx_package_idempotent [of ?r]
  from t1 have a: "str_in usepackage_graphicx (add_graphicx_package ''abc'')" by (rule conjunct1)
  from t1 have c: "add_graphicx_package (add_graphicx_package ''abc'') = add_graphicx_package ''abc''"
    by (rule conjunct2 [OF conjunct2])
  from t2 [THEN conjunct2, THEN conjunct1, rule_format, OF h]
  have b: "add_graphicx_package ?r = ?r" .
  from n v a h b c show ?thesis by blast
qed

text \<open>
  C2: where the declaration is absent and the class declaration is followed by
  \<open>\begin{document}\<close>, the text before \<open>\documentclass\<close> should be kept. Evaluation on a
  document that starts with a comment line: the result starts at \<open>\documentclass\<close>, the
  comment line is gone. (The value returned is \<open>group(1) + declaration + group(2) + rest\<close>;
  the text before the match is not part of it.)
\<close>

theorem add_graphicx_package_drops_prefix:
  "\<not> str_in usepackage_graphicx
       (''% v1'' @ [newline, bslash] @ ''documentclass{article}'' @ [newline, bslash]
         @ ''begin{document}Hi'')
   \<and> add_graphicx_package
       (''% v1'' @ [newline, bslash] @ ''documentclass{article}'' @ [newline, bslash]
         @ ''begin{document}Hi'')
     = (bslash # ''documentclass{article}'' @ [newline, newline, bslash] @ ''usepackage{graphicx}''
         @ [bslash] @ ''begin{document}Hi'')"
  by code_simp

section \<open>The spans the Locator returns\<close>

lemma is_overlap_mono: "set acc \<subseteq> set acc' \<Longrightarrow> is_overlap acc m \<Longrightarrow> is_overlap acc' m"
  by (auto simp: is_overlap_def list_ex_iff)

text \<open>
  An entry of the list after the second loop was there before the loop, or is an inline
  match that no entry of the list before the loop contains.
\<close>

lemma inline_loop_elems:
  "x \<in> set (inline_loop content acc ms) \<Longrightarrow>
     x \<in> set acc \<or> (\<exists>m\<in>set ms. x = (fst m, snd m, group0 content m, False) \<and> \<not> is_overlap acc m)"
proof (induction ms arbitrary: acc)
  case Nil
  then show ?case by simp
next
  case (Cons m ms)
  show ?case
  proof (cases "is_overlap acc m")
    case True
    with Cons.prems have "x \<in> set (inline_loop content acc ms)" by simp
    from Cons.IH [OF this] show ?thesis by auto
  next
    case False
    let ?acc = "acc @ [(fst m, snd m, group0 content m, False)]"
    from False Cons.prems have "x \<in> set (inline_loop content ?acc ms)" by simp
    from Cons.IH [OF this] have
      "x \<in> set ?acc \<or> (\<exists>m'\<in>set ms. x = (fst m', snd m', group0 content m', False) \<and> \<not> is_overlap ?acc m')" .
    moreover have "\<And>m'. \<not> is_overlap ?acc m' \<Longrightarrow> \<not> is_overlap acc m'"
      using is_overlap_mono [of acc ?acc] by auto
    ultimately show ?thesis using False by auto
  qed
qed

lemma set_locate_equations:
  "set (locate_equations content) =
     set (inline_loop content (display_loop content) (finditer inline_pattern content))"
  by (simp add: locate_equations_def)

lemma display_loop_flag: "x \<in> set (display_loop content) \<Longrightarrow> is_display_math x"
  by (auto simp: display_loop_def)

text \<open>
  C7: an inline match whose range lies inside a display match is not returned as an inline
  span; and for the text \<open>$$x $ y$ z$$\<close> the Locator returns one span only, the display
  span over the whole text.
\<close>

theorem inline_inside_display_discarded:
  "(\<forall>content m d. m \<in> set (finditer inline_pattern content)
        \<and> d \<in> set (finditer display_pattern content) \<and> fst d \<le> fst m \<and> snd m \<le> snd d
      \<longrightarrow> (fst m, snd m, group0 content m, False) \<notin> set (locate_equations content))
   \<and> locate_equations ''$$x $ y$ z$$'' = [(0, 12, ''$$x $ y$ z$$'', True)]"
proof (intro conjI allI impI)
  fix content m d
  assume a: "m \<in> set (finditer inline_pattern content)
        \<and> d \<in> set (finditer display_pattern content) \<and> fst d \<le> fst m \<and> snd m \<le> snd d"
  let ?x = "(fst m, snd m, group0 content m, False)"
  have ov: "\<And>m'. fst m' = fst m \<Longrightarrow> snd m' = snd m \<Longrightarrow> is_overlap (display_loop content) m'"
    using a by (auto simp: is_overlap_def list_ex_iff display_loop_def intro!: bexI [of _ d])
  show "?x \<notin> set (locate_equations content)"
  proof
    assume "?x \<in> set (locate_equations content)"
    then have "?x \<in> set (inline_loop content (display_loop content) (finditer inline_pattern content))"
      by (simp add: set_locate_equations)
    from inline_loop_elems [OF this] consider
        (disp) "?x \<in> set (display_loop content)"
      | (inl) m' where "?x = (fst m', snd m', group0 content m', False)"
          and "\<not> is_overlap (display_loop content) m'"
      by blast
    then show False
    proof cases
      case disp
      from display_loop_flag [OF this] show False by simp
    next
      case inl
      from inl(1) have "fst m' = fst m" and "snd m' = snd m" by simp_all
      from ov [OF this] inl(2) show False by simp
    qed
  qed
next
  show "locate_equations ''$$x $ y$ z$$'' = [(0, 12, ''$$x $ y$ z$$'', True)]"
    by code_simp
qed

theorem inline_inside_display_discarded_witness:
  "(4, 8) \<in> set (finditer inline_pattern ''$$x $ y$ z$$'')
   \<and> (0, 12) \<in> set (finditer display_pattern ''$$x $ y$ z$$'')
   \<and> (4, 8, ''$ y$'', False) \<notin> set (locate_equations ''$$x $ y$ z$$'')"
proof -
  have h: "(4, 8) \<in> set (finditer inline_pattern ''$$x $ y$ z$$'')
      \<and> (0, 12) \<in> set (finditer display_pattern ''$$x $ y$ z$$'')
      \<and> fst (0::nat, 12::nat) \<le> fst (4::nat, 8::nat) \<and> snd (4::nat, 8::nat) \<le> snd (0::nat, 12::nat)"
    by code_simp
  have g: "group0 ''$$x $ y$ z$$'' (4, 8) = ''$ y$''"
    by code_simp
  from inline_inside_display_discarded h
  have "(fst (4::nat, 8::nat), snd (4::nat, 8::nat), group0 ''$$x $ y$ z$$'' (4, 8), False)
          \<notin> set (locate_equations ''$$x $ y$ z$$'')"
    by blast
  with g h show ?thesis by simp
qed

lemma finditer_from_ordered:
  "sorted_wrt (\<lambda>a b. snd a \<le> fst b) (finditer_from r pos prev rest)
   \<and> (\<forall>m\<in>set (finditer_from r pos prev rest). pos \<le> fst m \<and> fst m \<le> snd m)"
proof (induction r pos prev rest rule: finditer_from.induct)
  case (1 r pos prev rest)
  show ?case
  proof (cases "ends r (prev, rest)")
    case Nil
    show ?thesis
    proof (cases rest)
      case empty: Nil
      have "finditer_from r pos prev rest = []"
        by (subst finditer_from.simps) (use Nil empty in simp)
      then show ?thesis by simp
    next
      case (Cons c cs)
      have eq: "finditer_from r pos prev rest = finditer_from r (Suc pos) (Some c) cs"
        by (subst finditer_from.simps) (use Nil Cons in simp)
      from "1.IH"(1) [OF Nil Cons] show ?thesis unfolding eq by fastforce
    qed
  next
    case (Cons st sts)
    obtain prev' rest' where st: "st = (prev', rest')" by (cases st) auto
    show ?thesis
    proof (cases "length rest' < length rest")
      case True
      let ?e = "pos + (length rest - length rest')"
      have eq: "finditer_from r pos prev rest = (pos, ?e) # finditer_from r ?e prev' rest'"
        by (subst finditer_from.simps) (use Cons st True in simp)
      from "1.IH"(2) [OF Cons st [symmetric] True] show ?thesis unfolding eq by fastforce
    next
      case False
      show ?thesis
      proof (cases rest)
        case Nil
        have "finditer_from r pos prev rest = [(pos, pos)]"
          by (subst finditer_from.simps) (use Cons st False Nil in simp)
        then show ?thesis by simp
      next
        case more: (Cons c cs)
        have eq: "finditer_from r pos prev rest = (pos, pos) # finditer_from r (Suc pos) (Some c) cs"
          by (subst finditer_from.simps) (use Cons st False more in simp)
        from "1.IH"(3) [OF Cons st [symmetric] False more] show ?thesis unfolding eq by fastforce
      qed
    qed
  qed
qed

lemma sorted_wrt_pair:
  "sorted_wrt P xs \<Longrightarrow> a \<in> set xs \<Longrightarrow> b \<in> set xs \<Longrightarrow> a \<noteq> b \<Longrightarrow> P a b \<or> P b a"
proof (induction xs)
  case Nil
  then show ?case by simp
next
  case (Cons x xs)
  from Cons.prems(1) have all: "\<forall>y\<in>set xs. P x y" and rest: "sorted_wrt P xs" by simp_all
  show ?case
  proof (cases "a = x")
    case True
    with Cons.prems(3,4) have "b \<in> set xs" by auto
    with all True show ?thesis by simp
  next
    case False
    with Cons.prems(2) have a: "a \<in> set xs" by simp
    show ?thesis
    proof (cases "b = x")
      case True
      with all a show ?thesis by simp
    next
      case False
      with Cons.prems(3) have "b \<in> set xs" by simp
      from Cons.IH [OF rest a this Cons.prems(4)] show ?thesis .
    qed
  qed
qed

lemma finditer_disjoint:
  assumes "a \<in> set (finditer r content)" and "b \<in> set (finditer r content)" and "a \<noteq> b"
  shows "snd a \<le> fst b \<or> snd b \<le> fst a"
proof -
  have "sorted_wrt (\<lambda>a b. snd a \<le> fst b) (finditer r content)"
    using finditer_from_ordered [of r 0 None content] by (simp add: finditer_def)
  from sorted_wrt_pair [of "\<lambda>a b. snd a \<le> fst b", OF this assms] show ?thesis .
qed

lemma locate_display:
  assumes "x \<in> set (locate_equations content)" and "is_display_math x"
  shows "x \<in> set (display_loop content)"
proof -
  from assms(1) have mem: "x \<in> set (inline_loop content (display_loop content) (finditer inline_pattern content))"
    by (simp add: set_locate_equations)
  from inline_loop_elems [OF mem] show ?thesis
  proof (elim disjE bexE conjE)
    assume "x \<in> set (display_loop content)"
    then show ?thesis .
  next
    fix m assume "x = (fst m, snd m, group0 content m, False)"
    then have "\<not> is_display_math x" by simp
    with assms(2) show ?thesis by simp
  qed
qed

lemma locate_inline:
  assumes "x \<in> set (locate_equations content)" and "\<not> is_display_math x"
  shows "\<exists>m\<in>set (finditer inline_pattern content).
           x = (fst m, snd m, group0 content m, False) \<and> \<not> is_overlap (display_loop content) m"
proof -
  from assms(1) have mem: "x \<in> set (inline_loop content (display_loop content) (finditer inline_pattern content))"
    by (simp add: set_locate_equations)
  from inline_loop_elems [OF mem] show ?thesis
  proof (elim disjE)
    assume "x \<in> set (display_loop content)"
    from display_loop_flag [OF this] assms(2) show ?thesis by simp
  next
    assume "\<exists>m\<in>set (finditer inline_pattern content).
           x = (fst m, snd m, group0 content m, False) \<and> \<not> is_overlap (display_loop content) m"
    then show ?thesis .
  qed
qed

lemma display_loop_elem:
  "x \<in> set (display_loop content) \<Longrightarrow>
     \<exists>a\<in>set (finditer display_pattern content). x = (fst a, snd a, group0 content a, True)"
  by (auto simp: display_loop_def)

lemma display_loop_disjoint:
  assumes "x \<in> set (display_loop content)" and "y \<in> set (display_loop content)" and "x \<noteq> y"
  shows "end_idx x \<le> start_idx y \<or> end_idx y \<le> start_idx x"
proof -
  from display_loop_elem [OF assms(1)] obtain a where a: "a \<in> set (finditer display_pattern content)"
    "x = (fst a, snd a, group0 content a, True)" by blast
  from display_loop_elem [OF assms(2)] obtain b where b: "b \<in> set (finditer display_pattern content)"
    "y = (fst b, snd b, group0 content b, True)" by blast
  from assms(3) a(2) b(2) have "a \<noteq> b" by blast
  from finditer_disjoint [OF a(1) b(1) this] show ?thesis unfolding a(2) b(2) by simp
qed

text \<open>
  C1 (as amended): for every document text the returned spans are ordered by ascending start
  offset; two different spans of the same kind (both display, or both inline) share no
  character position; and no inline span lies inside a display span. An inline span and a
  display span that overlap only in part are both returned.
\<close>

theorem locate_equations_ordered:
  "sorted (map fst (locate_equations content))
   \<and> (\<forall>x\<in>set (locate_equations content). \<forall>y\<in>set (locate_equations content).
        is_display_math x = is_display_math y \<and> x \<noteq> y
        \<longrightarrow> end_idx x \<le> start_idx y \<or> end_idx y \<le> start_idx x)
   \<and> (\<forall>x\<in>set (locate_equations content). \<forall>y\<in>set (locate_equations content).
        \<not> is_display_math x \<and> is_display_math y
        \<longrightarrow> \<not> (start_idx y \<le> start_idx x \<and> end_idx x \<le> end_idx y))"
proof (intro conjI ballI impI)
  show "sorted (map fst (locate_equations content))"
    by (simp add: locate_equations_def)
next
  fix x y
  assume x: "x \<in> set (locate_equations content)" and y: "y \<in> set (locate_equations content)"
    and k: "is_display_math x = is_display_math y \<and> x \<noteq> y"
  show "end_idx x \<le> start_idx y \<or> end_idx y \<le> start_idx x"
  proof (cases "is_display_math x")
    case True
    with k have ky: "is_display_math y" and ne: "x \<noteq> y" by simp_all
    from display_loop_disjoint [OF locate_display [OF x True] locate_display [OF y ky] ne]
    show ?thesis .
  next
    case False
    with k have ky: "\<not> is_display_math y" and ne: "x \<noteq> y" by simp_all
    from locate_inline [OF x False] obtain a where a: "a \<in> set (finditer inline_pattern content)"
      "x = (fst a, snd a, group0 content a, False)" by blast
    from locate_inline [OF y ky] obtain b where b: "b \<in> set (finditer inline_pattern content)"
      "y = (fst b, snd b, group0 content b, False)" by blast
    from ne a(2) b(2) have "a \<noteq> b" by blast
    from finditer_disjoint [OF a(1) b(1) this] show ?thesis unfolding a(2) b(2) by simp
  qed
next
  fix x y
  assume x: "x \<in> set (locate_equations content)" and y: "y \<in> set (locate_equations content)"
    and k: "\<not> is_display_math x \<and> is_display_math y"
  from k have kx: "\<not> is_display_math x" and ky: "is_display_math y" by simp_all
  from locate_inline [OF x kx] obtain a where a: "x = (fst a, snd a, group0 content a, False)"
    "\<not> is_overlap (display_loop content) a" by blast
  have yd: "y \<in> set (display_loop content)" using locate_display [OF y ky] .
  show "\<not> (start_idx y \<le> start_idx x \<and> end_idx x \<le> end_idx y)"
  proof
    assume c: "start_idx y \<le> start_idx x \<and> end_idx x \<le> end_idx y"
    with a(1) have "start_idx y \<le> fst a \<and> snd a \<le> end_idx y" by simp
    with yd have "is_overlap (display_loop content) a"
      unfolding is_overlap_def list_ex_iff by blast
    with a(2) show False by simp
  qed
qed

theorem locate_equations_ordered_witness:
  "locate_equations ''$$a$$ $b$ $c$''
     = [(0, 5, ''$$a$$'', True), (6, 9, ''$b$'', False), (10, 13, ''$c$'', False)]
   \<and> sorted (map fst (locate_equations ''$$a$$ $b$ $c$''))
   \<and> ((9::nat) \<le> 10 \<or> (13::nat) \<le> 6)
   \<and> \<not> ((0::nat) \<le> 6 \<and> (9::nat) \<le> 5)"
proof -
  have v: "locate_equations ''$$a$$ $b$ $c$''
     = [(0, 5, ''$$a$$'', True), (6, 9, ''$b$'', False), (10, 13, ''$c$'', False)]"
    by code_simp
  note t = locate_equations_ordered [of "''$$a$$ $b$ $c$''"]
  from t have 1: "sorted (map fst (locate_equations ''$$a$$ $b$ $c$''))" by (rule conjunct1)
  from t have 2: "\<forall>x\<in>set (locate_equations ''$$a$$ $b$ $c$'').
      \<forall>y\<in>set (locate_equations ''$$a$$ $b$ $c$'').
        is_display_math x = is_display_math y \<and> x \<noteq> y
        \<longrightarrow> end_idx x \<le> start_idx y \<or> end_idx y \<le> start_idx x"
    by (rule conjunct1 [OF conjunct2])
  from t have 3: "\<forall>x\<in>set (locate_equations ''$$a$$ $b$ $c$'').
      \<forall>y\<in>set (locate_equations ''$$a$$ $b$ $c$'').
        \<not> is_display_math x \<and> is_display_math y
        \<longrightarrow> \<not> (start_idx y \<le> start_idx x \<and> end_idx x \<le> end_idx y)"
    by (rule conjunct2 [OF conjunct2])
  from 2 have "(9::nat) \<le> 10 \<or> (13::nat) \<le> 6" unfolding v by simp
  moreover from 3 have "\<not> ((0::nat) \<le> 6 \<and> (9::nat) \<le> 5)" unfolding v by simp
  ultimately show ?thesis using v 1 by simp
qed

text \<open>
  The claim as stated fails where an inline match overlaps a display match in part: in
  \<open>$a$$b$$\<close> the inline span from 0 to 3 and the display span from 2 to 7 are both
  returned, and position 2 belongs to both.
\<close>

theorem locate_equations_overlap_counterexample:
  "locate_equations ''$a$$b$$'' = [(0, 3, ''$a$'', False), (2, 7, ''$$b$$'', True)]
   \<and> (0::nat) \<le> 2 \<and> (2::nat) < 3 \<and> (2::nat) \<le> 2 \<and> (2::nat) < 7"
  by code_simp

text \<open>
  C3: an inline run whose content holds an escaped dollar should be returned. Evaluation on
  the text of six characters \<open>$a\$b$\<close>: the Locator returns no span. (The body of the
  inline pattern excludes every dollar, so the closing delimiter can only be the first
  dollar after the opening one, and the look-behind rejects it when it is escaped.)
\<close>

theorem escaped_dollar_in_content_not_located:
  "locate_equations [dollar, CHR ''a'', bslash, dollar, CHR ''b'', dollar] = []"
  by code_simp

section \<open>The matches in a document of one display and one inline span\<close>

lemma prev_after_eq: "prev_after p s = (if s = [] then p else Some (last s))"
  by (induction s arbitrary: p) auto

lemma prev_after_append [simp]: "prev_after p (s @ t) = prev_after (prev_after p s) t"
  by (induction s arbitrary: p) auto

lemma ends_inline_nomatch:
  "ends inline_pattern (p, []) = []" "x \<noteq> dollar \<Longrightarrow> ends inline_pattern (p, x # xs) = []"
  by (simp_all add: inline_pattern_def)

lemma ends_display_nomatch:
  "ends display_pattern (p, []) = []"
  "x \<noteq> dollar \<Longrightarrow> ends display_pattern (p, x # xs) = []"
  "ends display_pattern (p, [dollar]) = []"
  "y \<noteq> dollar \<Longrightarrow> ends display_pattern (p, dollar # y # ys) = []"
  by (simp_all add: display_pattern_def)

lemma inline_scan:
  "dollar \<notin> set c \<Longrightarrow> length c \<le> n \<Longrightarrow>
   concat (map (ends (Seq (NotBehind bslash) (Str ''$'')))
               (lazy_iter (ends (Seq (NotAhead (Str ''$'')) AnyChar)) n (p, c @ dollar # rest)))
   = (if prev_after p c = Some bslash then [] else [(Some dollar, rest)])"
proof (induction c arbitrary: p n)
  case Nil
  show ?case by (cases n) simp_all
next
  case (Cons x c)
  from Cons.prems obtain n' where n: "n = Suc n'" and le: "length c \<le> n'" by (cases n) auto
  from Cons.prems have x: "x \<noteq> dollar" and c: "dollar \<notin> set c" by auto
  from Cons.IH [OF c le, of "Some x"] x show ?case by (simp add: n)
qed

lemma display_scan:
  "dollar \<notin> set d \<Longrightarrow> length d \<le> n \<Longrightarrow>
   concat (map (ends (Seq (NotBehind bslash) (Str ''$$'')))
               (lazy_iter (ends (Seq (NotAhead (Str ''$$'')) AnyChar)) n (p, d @ dollar # dollar # rest)))
   = (if prev_after p d = Some bslash then [] else [(Some dollar, rest)])"
proof (induction d arbitrary: p n)
  case Nil
  show ?case by (cases n) simp_all
next
  case (Cons x d)
  from Cons.prems obtain n' where n: "n = Suc n'" and le: "length d \<le> n'" by (cases n) auto
  from Cons.prems have x: "x \<noteq> dollar" and d: "dollar \<notin> set d" by auto
  from Cons.IH [OF d le, of "Some x"] x show ?case by (simp add: n)
qed

lemma ends_inline_match:
  assumes "dollar \<notin> set c"
  shows "ends inline_pattern (p, dollar # c @ dollar # rest)
         = (if p = Some bslash \<or> prev_after (Some dollar) c = Some bslash then []
            else [(Some dollar, rest)])"
proof -
  have "ends inline_pattern (p, dollar # c @ dollar # rest)
        = (if p = Some bslash then []
           else concat (map (ends (Seq (NotBehind bslash) (Str ''$'')))
               (lazy_iter (ends (Seq (NotAhead (Str ''$'')) AnyChar))
                  (Suc (length (c @ dollar # rest))) (Some dollar, c @ dollar # rest))))"
    by (cases "p = Some bslash") (simp_all add: inline_pattern_def del: lazy_iter.simps)
  also have "\<dots> = (if p = Some bslash then []
           else if prev_after (Some dollar) c = Some bslash then [] else [(Some dollar, rest)])"
    by (subst inline_scan [OF assms]) simp_all
  finally show ?thesis by simp
qed

lemma ends_display_match:
  assumes "dollar \<notin> set d"
  shows "ends display_pattern (p, dollar # dollar # d @ dollar # dollar # rest)
         = (if p = Some bslash \<or> prev_after (Some dollar) d = Some bslash then []
            else [(Some dollar, rest)])"
proof -
  have "ends display_pattern (p, dollar # dollar # d @ dollar # dollar # rest)
        = (if p = Some bslash then []
           else concat (map (ends (Seq (NotBehind bslash) (Str ''$$'')))
               (lazy_iter (ends (Seq (NotAhead (Str ''$$'')) AnyChar))
                  (Suc (length (d @ dollar # dollar # rest))) (Some dollar, d @ dollar # dollar # rest))))"
    by (cases "p = Some bslash") (simp_all add: display_pattern_def del: lazy_iter.simps)
  also have "\<dots> = (if p = Some bslash then []
           else if prev_after (Some dollar) d = Some bslash then [] else [(Some dollar, rest)])"
    by (subst display_scan [OF assms]) simp_all
  finally show ?thesis by simp
qed

lemma finditer_end: "ends r (p, []) = [] \<Longrightarrow> finditer_from r pos p [] = []"
  by (subst finditer_from.simps) simp

lemma finditer_nomatch: "ends r (p, x # xs) = [] \<Longrightarrow>
    finditer_from r pos p (x # xs) = finditer_from r (Suc pos) (Some x) xs"
  by (subst finditer_from.simps) simp

lemma finditer_match: "ends r (p, xs) = (p', rest) # others \<Longrightarrow> length rest < length xs \<Longrightarrow>
    finditer_from r pos p xs
    = (pos, pos + (length xs - length rest)) # finditer_from r (pos + (length xs - length rest)) p' rest"
  by (subst finditer_from.simps) simp

lemma finditer_skip:
  assumes "\<And>p x xs. x \<noteq> dollar \<Longrightarrow> ends r (p, x # xs) = []" and "dollar \<notin> set seg"
  shows "finditer_from r pos p (seg @ rest) = finditer_from r (pos + length seg) (prev_after p seg) rest"
  using assms(2)
proof (induction seg arbitrary: pos p)
  case Nil
  show ?case by simp
next
  case (Cons x seg)
  from Cons.prems have x: "x \<noteq> dollar" and s: "dollar \<notin> set seg" by auto
  have "finditer_from r pos p ((x # seg) @ rest) = finditer_from r (Suc pos) (Some x) (seg @ rest)"
    using finditer_nomatch [OF assms(1) [OF x]] by simp
  with Cons.IH [OF s, of "Suc pos" "Some x"] show ?case by simp
qed

lemma finditer_tail:
  assumes "\<And>p x xs. x \<noteq> dollar \<Longrightarrow> ends r (p, x # xs) = []" and "\<And>p. ends r (p, []) = []"
    and "dollar \<notin> set seg"
  shows "finditer_from r pos p seg = []"
  using finditer_skip [OF assms(1,3), of pos p "[]"] finditer_end [OF assms(2)] by simp

lemma not_escapes_prev: "\<not> escapes s \<Longrightarrow> p \<noteq> Some bslash \<Longrightarrow> prev_after p s \<noteq> Some bslash"
  by (auto simp: prev_after_eq escapes_def)

lemma inline_step_skip:
  "dollar \<notin> set seg \<Longrightarrow>
   finditer_from inline_pattern pos p (seg @ rest)
   = finditer_from inline_pattern (pos + length seg) (prev_after p seg) rest"
  by (rule finditer_skip) (simp_all add: ends_inline_nomatch)

lemma inline_step_tail: "dollar \<notin> set seg \<Longrightarrow> finditer_from inline_pattern pos p seg = []"
  by (rule finditer_tail) (simp_all add: ends_inline_nomatch)

lemma inline_step_match:
  assumes "dollar \<notin> set c" and "p \<noteq> Some bslash" and "prev_after (Some dollar) c \<noteq> Some bslash"
  shows "finditer_from inline_pattern pos p (dollar # c @ dollar # rest)
         = (pos, pos + length c + 2) # finditer_from inline_pattern (pos + length c + 2) (Some dollar) rest"
proof -
  have e: "ends inline_pattern (p, dollar # c @ dollar # rest) = (Some dollar, rest) # []"
    using assms by (simp add: ends_inline_match)
  from finditer_match [OF e, of pos] show ?thesis by (simp add: ac_simps)
qed

lemma display_step_skip:
  "dollar \<notin> set seg \<Longrightarrow>
   finditer_from display_pattern pos p (seg @ rest)
   = finditer_from display_pattern (pos + length seg) (prev_after p seg) rest"
  by (rule finditer_skip) (simp_all add: ends_display_nomatch)

lemma display_step_tail: "dollar \<notin> set seg \<Longrightarrow> finditer_from display_pattern pos p seg = []"
  by (rule finditer_tail) (simp_all add: ends_display_nomatch)

lemma display_step_single:
  assumes "xs = [] \<or> hd xs \<noteq> dollar"
  shows "finditer_from display_pattern pos p (dollar # xs)
         = finditer_from display_pattern (Suc pos) (Some dollar) xs"
proof -
  have "ends display_pattern (p, dollar # xs) = []"
  proof (cases xs)
    case Nil
    then show ?thesis by (simp add: ends_display_nomatch)
  next
    case (Cons a list)
    with assms have "a \<noteq> dollar" by auto
    then show ?thesis by (simp add: Cons ends_display_nomatch)
  qed
  then show ?thesis by (rule finditer_nomatch)
qed

lemma display_step_match:
  assumes "dollar \<notin> set d" and "p \<noteq> Some bslash" and "prev_after (Some dollar) d \<noteq> Some bslash"
  shows "finditer_from display_pattern pos p (dollar # dollar # d @ dollar # dollar # rest)
         = (pos, pos + length d + 4) # finditer_from display_pattern (pos + length d + 4) (Some dollar) rest"
proof -
  have e: "ends display_pattern (p, dollar # dollar # d @ dollar # dollar # rest) = (Some dollar, rest) # []"
    using assms by (simp add: ends_display_match)
  from finditer_match [OF e, of pos] show ?thesis by (simp add: ac_simps)
qed

text \<open>A single dollar, a dollar-free text and a single dollar holds no display match.\<close>

lemma display_over_inline:
  assumes "dollar \<notin> set c" and "c \<noteq> []" and "rest = [] \<or> hd rest \<noteq> dollar"
  shows "finditer_from display_pattern pos p (dollar # c @ dollar # rest)
         = finditer_from display_pattern (pos + length c + 2) (Some dollar) rest"
proof -
  from assms(1,2) have "hd (c @ dollar # rest) \<noteq> dollar" by (cases c) auto
  then have "finditer_from display_pattern pos p (dollar # c @ dollar # rest)
      = finditer_from display_pattern (Suc pos) (Some dollar) (c @ dollar # rest)"
    by (intro display_step_single) simp
  also have "\<dots> = finditer_from display_pattern (Suc pos + length c) (prev_after (Some dollar) c) (dollar # rest)"
    using assms(1) by (rule display_step_skip)
  also have "\<dots> = finditer_from display_pattern (Suc (Suc pos + length c)) (Some dollar) rest"
    using assms(3) by (rule display_step_single)
  finally show ?thesis by simp
qed

lemma hd_dollar_free: "dollar \<notin> set xs \<Longrightarrow> xs @ ys = [] \<or> hd (xs @ ys) \<noteq> dollar \<or> xs = []"
  by (cases xs) auto

lemmas display_steps = display_step_skip display_step_match display_step_tail
lemmas inline_steps = inline_step_skip inline_step_match inline_step_tail

lemma display_first_display:
  assumes "dollar \<notin> set pre" "dollar \<notin> set d" "dollar \<notin> set mid" "dollar \<notin> set c"
    "dollar \<notin> set post" "\<not> escapes pre" "\<not> escapes d" "c \<noteq> []"
  shows "finditer display_pattern (pre @ dollar # dollar # d @ dollar # dollar # mid @ dollar # c @ dollar # post)
         = [(length pre, length pre + length d + 4)]"
proof -
  from assms(5) have h: "post = [] \<or> hd post \<noteq> dollar" by (cases post) auto
  from assms(4,8) h have "\<And>pos p. finditer_from display_pattern pos p (dollar # c @ dollar # post)
      = finditer_from display_pattern (pos + length c + 2) (Some dollar) post"
    by (rule display_over_inline)
  with assms show ?thesis by (simp add: finditer_def display_steps not_escapes_prev)
qed

lemma display_first_inline:
  assumes "dollar \<notin> set pre" "dollar \<notin> set d" "dollar \<notin> set mid" "dollar \<notin> set c"
    "dollar \<notin> set post" "\<not> escapes pre" "\<not> escapes d" "\<not> escapes mid" "\<not> escapes c"
  shows "finditer inline_pattern (pre @ dollar # dollar # d @ dollar # dollar # mid @ dollar # c @ dollar # post)
         = [(length pre, length pre + 2), (length pre + length d + 2, length pre + length d + 4),
            (length pre + length d + 4 + length mid, length pre + length d + 4 + length mid + length c + 2)]"
  using assms inline_step_match [of "[]"]
  by (simp add: finditer_def inline_steps not_escapes_prev ac_simps)

lemma inline_first_display:
  assumes "dollar \<notin> set pre" "dollar \<notin> set d" "dollar \<notin> set mid" "dollar \<notin> set c"
    "dollar \<notin> set post" "\<not> escapes mid" "\<not> escapes d" "c \<noteq> []" "mid \<noteq> []"
  shows "finditer display_pattern (pre @ dollar # c @ dollar # mid @ dollar # dollar # d @ dollar # dollar # post)
         = [(length pre + length c + 2 + length mid, length pre + length c + 2 + length mid + length d + 4)]"
proof -
  let ?R = "mid @ dollar # dollar # d @ dollar # dollar # post"
  from assms(3,9) have h: "?R = [] \<or> hd ?R \<noteq> dollar" by (cases mid) auto
  have "finditer display_pattern (pre @ dollar # c @ dollar # ?R)
        = finditer_from display_pattern (length pre) (prev_after None pre) (dollar # c @ dollar # ?R)"
    using assms(1) by (simp add: finditer_def display_step_skip)
  also have "\<dots> = finditer_from display_pattern (length pre + length c + 2) (Some dollar) ?R"
    using assms(4,8) h by (rule display_over_inline)
  also have "\<dots> = [(length pre + length c + 2 + length mid, length pre + length c + 2 + length mid + length d + 4)]"
    using assms by (simp add: display_step_skip display_step_match display_step_tail not_escapes_prev)
  finally show ?thesis .
qed

lemma inline_first_inline:
  assumes "dollar \<notin> set pre" "dollar \<notin> set d" "dollar \<notin> set mid" "dollar \<notin> set c"
    "dollar \<notin> set post" "\<not> escapes pre" "\<not> escapes d" "\<not> escapes mid" "\<not> escapes c"
  shows "finditer inline_pattern (pre @ dollar # c @ dollar # mid @ dollar # dollar # d @ dollar # dollar # post)
         = [(length pre, length pre + length c + 2),
            (length pre + length c + 2 + length mid, length pre + length c + 2 + length mid + 2),
            (length pre + length c + 2 + length mid + 2 + length d, length pre + length c + 2 + length mid + length d + 4)]"
  using assms inline_step_match [of "[]"]
  by (simp add: finditer_def inline_steps not_escapes_prev ac_simps)

lemma group0_at:
  assumes "content = pre @ s @ rest" and "i = length pre" and "j = i + length s"
  shows "group0 content (i, j) = s"
  using assms by (simp add: group0_def)

lemma locate_display_first:
  assumes "dollar \<notin> set pre" "dollar \<notin> set d" "dollar \<notin> set mid" "dollar \<notin> set c"
    "dollar \<notin> set post" "\<not> escapes pre" "\<not> escapes d" "\<not> escapes mid" "\<not> escapes c" "c \<noteq> []"
  shows "locate_equations (pre @ ''$$'' @ d @ ''$$'' @ mid @ ''$'' @ c @ ''$'' @ post)
         = [(length pre, length pre + length d + 4, ''$$'' @ d @ ''$$'', True),
            (length pre + length d + 4 + length mid, length pre + length d + 4 + length mid + length c + 2,
             ''$'' @ c @ ''$'', False)]"
proof -
  let ?doc = "pre @ dollar # dollar # d @ dollar # dollar # mid @ dollar # c @ dollar # post"
  have g1: "\<And>i j. i = length pre \<Longrightarrow> j = length pre + length d + 4 \<Longrightarrow> group0 ?doc (i, j) = dollar # dollar # d @ [dollar, dollar]"
    by (rule group0_at [where pre = pre and rest = "mid @ dollar # c @ dollar # post"]) simp_all
  have g2: "\<And>i j. i = length pre + length d + 4 + length mid \<Longrightarrow> j = length pre + length d + 4 + length mid + length c + 2 \<Longrightarrow> group0 ?doc (i, j) = dollar # c @ [dollar]"
    by (rule group0_at [where pre = "pre @ dollar # dollar # d @ dollar # dollar # mid" and rest = post]) simp_all
  have dl: "display_loop ?doc = [(length pre, length pre + length d + 4, dollar # dollar # d @ [dollar, dollar], True)]"
    using assms by (simp add: display_loop_def display_first_display g1)
  have il: "finditer inline_pattern ?doc
         = [(length pre, length pre + 2), (length pre + length d + 2, length pre + length d + 4),
            (length pre + length d + 4 + length mid, length pre + length d + 4 + length mid + length c + 2)]"
    using assms by (simp add: display_first_inline)
  have "locate_equations ?doc
         = [(length pre, length pre + length d + 4, dollar # dollar # d @ [dollar, dollar], True),
            (length pre + length d + 4 + length mid, length pre + length d + 4 + length mid + length c + 2,
             dollar # c @ [dollar], False)]"
    unfolding locate_equations_def dl il by (simp add: is_overlap_def g2)
  then show ?thesis by simp
qed

lemma locate_inline_first:
  assumes "dollar \<notin> set pre" "dollar \<notin> set d" "dollar \<notin> set mid" "dollar \<notin> set c"
    "dollar \<notin> set post" "\<not> escapes pre" "\<not> escapes d" "\<not> escapes mid" "\<not> escapes c" "c \<noteq> []"
    "mid \<noteq> []"
  shows "locate_equations (pre @ ''$'' @ c @ ''$'' @ mid @ ''$$'' @ d @ ''$$'' @ post)
         = [(length pre, length pre + length c + 2, ''$'' @ c @ ''$'', False),
            (length pre + length c + 2 + length mid, length pre + length c + 2 + length mid + length d + 4,
             ''$$'' @ d @ ''$$'', True)]"
proof -
  let ?doc = "pre @ dollar # c @ dollar # mid @ dollar # dollar # d @ dollar # dollar # post"
  have g1: "\<And>i j. i = length pre + length c + 2 + length mid \<Longrightarrow> j = length pre + length c + 2 + length mid + length d + 4 \<Longrightarrow> group0 ?doc (i, j) = dollar # dollar # d @ [dollar, dollar]"
    by (rule group0_at [where pre = "pre @ dollar # c @ dollar # mid" and rest = post]) simp_all
  have g2: "\<And>i j. i = length pre \<Longrightarrow> j = length pre + length c + 2 \<Longrightarrow> group0 ?doc (i, j) = dollar # c @ [dollar]"
    by (rule group0_at [where pre = pre and rest = "mid @ dollar # dollar # d @ dollar # dollar # post"]) simp_all
  have dl: "display_loop ?doc = [(length pre + length c + 2 + length mid,
                         length pre + length c + 2 + length mid + length d + 4,
                         dollar # dollar # d @ [dollar, dollar], True)]"
    using assms by (simp add: display_loop_def inline_first_display g1)
  have il: "finditer inline_pattern ?doc
         = [(length pre, length pre + length c + 2),
            (length pre + length c + 2 + length mid, length pre + length c + 2 + length mid + 2),
            (length pre + length c + 2 + length mid + 2 + length d, length pre + length c + 2 + length mid + length d + 4)]"
    using assms by (simp add: inline_first_inline)
  have "locate_equations ?doc
         = [(length pre, length pre + length c + 2, dollar # c @ [dollar], False),
            (length pre + length c + 2 + length mid, length pre + length c + 2 + length mid + length d + 4,
             dollar # dollar # d @ [dollar, dollar], True)]"
    unfolding locate_equations_def dl il by (simp add: is_overlap_def g2)
  then show ?thesis by simp
qed

text \<open>
  C6 (as amended): for the text \<open>Start $$a+b$$ middle $c-d$ end.\<close> the Locator returns
  the display span (6, 13) and then the inline span (21, 26). In general, a document made of
  a display span \<open>$$d$$\<close> and an inline span \<open>$c$\<close> with \<open>c\<close> not empty, in either
  order, where the texts before, between, after and inside the spans hold no dollar and no
  delimiter follows a backslash, yields exactly these two spans, ordered by position, each
  with its kind and its exact text; when the inline span comes first, at least one character
  must separate it from the display span.
\<close>

theorem locate_one_display_one_inline:
  "locate_equations ''Start $$a+b$$ middle $c-d$ end.''
     = [(6, 13, ''$$a+b$$'', True), (21, 26, ''$c-d$'', False)]
   \<and> (\<forall>pre d mid c post.
        dollar \<notin> set pre \<and> dollar \<notin> set d \<and> dollar \<notin> set mid \<and> dollar \<notin> set c
        \<and> dollar \<notin> set post \<and> \<not> escapes pre \<and> \<not> escapes d \<and> \<not> escapes mid
        \<and> \<not> escapes c \<and> c \<noteq> []
        \<longrightarrow> locate_equations (pre @ ''$$'' @ d @ ''$$'' @ mid @ ''$'' @ c @ ''$'' @ post)
            = [(length pre, length pre + length d + 4, ''$$'' @ d @ ''$$'', True),
               (length pre + length d + 4 + length mid,
                length pre + length d + 4 + length mid + length c + 2, ''$'' @ c @ ''$'', False)])
   \<and> (\<forall>pre d mid c post.
        dollar \<notin> set pre \<and> dollar \<notin> set d \<and> dollar \<notin> set mid \<and> dollar \<notin> set c
        \<and> dollar \<notin> set post \<and> \<not> escapes pre \<and> \<not> escapes d \<and> \<not> escapes mid
        \<and> \<not> escapes c \<and> c \<noteq> [] \<and> mid \<noteq> []
        \<longrightarrow> locate_equations (pre @ ''$'' @ c @ ''$'' @ mid @ ''$$'' @ d @ ''$$'' @ post)
            = [(length pre, length pre + length c + 2, ''$'' @ c @ ''$'', False),
               (length pre + length c + 2 + length mid,
                length pre + length c + 2 + length mid + length d + 4, ''$$'' @ d @ ''$$'', True)])"
proof (intro conjI allI impI)
  show "locate_equations ''Start $$a+b$$ middle $c-d$ end.''
     = [(6, 13, ''$$a+b$$'', True), (21, 26, ''$c-d$'', False)]"
    by code_simp
next
  fix pre d mid c post
  assume "dollar \<notin> set pre \<and> dollar \<notin> set d \<and> dollar \<notin> set mid \<and> dollar \<notin> set c
        \<and> dollar \<notin> set post \<and> \<not> escapes pre \<and> \<not> escapes d \<and> \<not> escapes mid
        \<and> \<not> escapes c \<and> c \<noteq> []"
  then show "locate_equations (pre @ ''$$'' @ d @ ''$$'' @ mid @ ''$'' @ c @ ''$'' @ post)
            = [(length pre, length pre + length d + 4, ''$$'' @ d @ ''$$'', True),
               (length pre + length d + 4 + length mid,
                length pre + length d + 4 + length mid + length c + 2, ''$'' @ c @ ''$'', False)]"
    by (intro locate_display_first) simp_all
next
  fix pre d mid c post
  assume "dollar \<notin> set pre \<and> dollar \<notin> set d \<and> dollar \<notin> set mid \<and> dollar \<notin> set c
        \<and> dollar \<notin> set post \<and> \<not> escapes pre \<and> \<not> escapes d \<and> \<not> escapes mid
        \<and> \<not> escapes c \<and> c \<noteq> [] \<and> mid \<noteq> []"
  then show "locate_equations (pre @ ''$'' @ c @ ''$'' @ mid @ ''$$'' @ d @ ''$$'' @ post)
            = [(length pre, length pre + length c + 2, ''$'' @ c @ ''$'', False),
               (length pre + length c + 2 + length mid,
                length pre + length c + 2 + length mid + length d + 4, ''$$'' @ d @ ''$$'', True)]"
    by (intro locate_inline_first) simp_all
qed

theorem locate_one_display_one_inline_witness:
  "(dollar \<notin> set ''Start '' \<and> dollar \<notin> set ''a+b'' \<and> dollar \<notin> set '' middle ''
      \<and> dollar \<notin> set ''c-d'' \<and> dollar \<notin> set '' end.'' \<and> \<not> escapes ''Start ''
      \<and> \<not> escapes ''a+b'' \<and> \<not> escapes '' middle '' \<and> \<not> escapes ''c-d'' \<and> ''c-d'' \<noteq> [])
   \<and> locate_equations (''Start '' @ ''$$'' @ ''a+b'' @ ''$$'' @ '' middle '' @ ''$'' @ ''c-d'' @ ''$'' @ '' end.'')
       = [(6, 13, ''$$a+b$$'', True), (21, 26, ''$c-d$'', False)]
   \<and> (dollar \<notin> set ''If '' \<and> dollar \<notin> set ''y'' \<and> dollar \<notin> set '' then ''
      \<and> dollar \<notin> set ''x'' \<and> dollar \<notin> set ''.'' \<and> \<not> escapes ''If ''
      \<and> \<not> escapes ''y'' \<and> \<not> escapes '' then '' \<and> \<not> escapes ''x'' \<and> ''x'' \<noteq> []
      \<and> '' then '' \<noteq> [])
   \<and> locate_equations (''If '' @ ''$'' @ ''x'' @ ''$'' @ '' then '' @ ''$$'' @ ''y'' @ ''$$'' @ ''.'')
       = [(3, 6, ''$x$'', False), (12, 17, ''$$y$$'', True)]"
proof -
  have h1: "dollar \<notin> set ''Start '' \<and> dollar \<notin> set ''a+b'' \<and> dollar \<notin> set '' middle ''
      \<and> dollar \<notin> set ''c-d'' \<and> dollar \<notin> set '' end.'' \<and> \<not> escapes ''Start ''
      \<and> \<not> escapes ''a+b'' \<and> \<not> escapes '' middle '' \<and> \<not> escapes ''c-d'' \<and> ''c-d'' \<noteq> []"
    by (simp add: escapes_def)
  have h2: "dollar \<notin> set ''If '' \<and> dollar \<notin> set ''y'' \<and> dollar \<notin> set '' then ''
      \<and> dollar \<notin> set ''x'' \<and> dollar \<notin> set ''.'' \<and> \<not> escapes ''If ''
      \<and> \<not> escapes ''y'' \<and> \<not> escapes '' then '' \<and> \<not> escapes ''x'' \<and> ''x'' \<noteq> []
      \<and> '' then '' \<noteq> []"
    by (simp add: escapes_def)
  note t = locate_one_display_one_inline
  from t [THEN conjunct2, THEN conjunct1, rule_format, OF h1]
  have r1: "locate_equations (''Start '' @ ''$$'' @ ''a+b'' @ ''$$'' @ '' middle '' @ ''$'' @ ''c-d'' @ ''$'' @ '' end.'')
       = [(6, 13, ''$$a+b$$'', True), (21, 26, ''$c-d$'', False)]"
    by simp
  from t [THEN conjunct2, THEN conjunct2, rule_format, OF h2]
  have r2: "locate_equations (''If '' @ ''$'' @ ''x'' @ ''$'' @ '' then '' @ ''$$'' @ ''y'' @ ''$$'' @ ''.'')
       = [(3, 6, ''$x$'', False), (12, 17, ''$$y$$'', True)]"
    by simp
  from h1 r1 h2 r2 show ?thesis by blast
qed

text \<open>
  The general part of the claim as stated fails where the inline span comes first and the
  display span follows it at once: in \<open>$a$$$b$$\<close>, the inline span \<open>$a$\<close> followed by
  the display span \<open>$$b$$\<close>, the display match starts at the closing dollar of the inline
  span, so the display span returned is \<open>$$$b$$\<close> from 2 to 8, not \<open>$$b$$\<close> from 3 to 8.
\<close>

theorem locate_adjacent_spans_counterexample:
  "''$a$$$b$$'' = ''$a$'' @ ''$$b$$''
   \<and> locate_equations ''$a$$$b$$'' = [(0, 3, ''$a$'', False), (2, 8, ''$$$b$$'', True)]
   \<and> locate_equations ''$a$$$b$$'' \<noteq> [(0, 3, ''$a$'', False), (3, 8, ''$$b$$'', True)]"
  by code_simp

section \<open>Splicing the replacements\<close>









section \<open>A missing file and an empty result\<close>

text \<open>
  C4 (as amended): for every file path that does not exist, \<open>extract_equations_with_spans\<close>
  prints the not-found line for that path and returns the empty list, which is also what it
  returns, without printing, for a readable document with no equations. In both cases the
  caller prints the same line (no equations found, or the file could not be read) and goes
  back to the menu. The two outcomes differ in the Locator's own not-found line only; no
  error reaches the caller.
\<close>

theorem missing_file_reported_with_empty_result:
  "(\<forall>fs file_path. fs file_path = FileNotFound \<longrightarrow>
       extract_equations_with_spans fs file_path = ([MsgFileNotFound file_path], [])
       \<and> file_mode_locate fs file_path = ([MsgFileNotFound file_path, MsgNoEquations file_path], None))
   \<and> (\<forall>fs file_path content. fs file_path = FileText content \<and> locate_equations content = [] \<longrightarrow>
       extract_equations_with_spans fs file_path = ([], [])
       \<and> file_mode_locate fs file_path = ([MsgNoEquations file_path], None))"
  by (simp add: extract_equations_with_spans_def file_mode_locate_def)

theorem missing_file_reported_with_empty_result_witness:
  "example_filesystem ''missing.tex'' = FileNotFound
   \<and> file_mode_locate example_filesystem ''missing.tex''
       = ([MsgFileNotFound ''missing.tex'', MsgNoEquations ''missing.tex''], None)
   \<and> example_filesystem ''empty.tex'' = FileText [] \<and> locate_equations [] = []
   \<and> file_mode_locate example_filesystem ''empty.tex'' = ([MsgNoEquations ''empty.tex''], None)"
proof -
  have h1: "example_filesystem ''missing.tex'' = FileNotFound" by code_simp
  have h2: "example_filesystem ''empty.tex'' = FileText [] \<and> locate_equations [] = []" by code_simp
  from missing_file_reported_with_empty_result h1
  have r1: "file_mode_locate example_filesystem ''missing.tex''
       = ([MsgFileNotFound ''missing.tex'', MsgNoEquations ''missing.tex''], None)"
    by blast
  from missing_file_reported_with_empty_result h2
  have r2: "file_mode_locate example_filesystem ''empty.tex'' = ([MsgNoEquations ''empty.tex''], None)"
    by blast
  from h1 h2 r1 r2 show ?thesis by simp
qed

text \<open>
  The claim as stated fails: for a missing file the operation does not fail, it returns the
  empty list, the same value as for the empty file, and the caller's own report is the same
  line in both cases.
\<close>

theorem missing_file_same_as_empty_counterexample:
  "extract_equations_with_spans example_filesystem ''missing.tex'' = ([MsgFileNotFound ''missing.tex''], [])
   \<and> snd (extract_equations_with_spans example_filesystem ''missing.tex'')
       = snd (extract_equations_with_spans example_filesystem ''empty.tex'')
   \<and> snd (file_mode_locate example_filesystem ''missing.tex'')
       = snd (file_mode_locate example_filesystem ''empty.tex'')
   \<and> last (fst (file_mode_locate example_filesystem ''missing.tex'')) = MsgNoEquations ''missing.tex''
   \<and> last (fst (file_mode_locate example_filesystem ''empty.tex'')) = MsgNoEquations ''empty.tex''"
  by code_simp

section \<open>Figures left open by the Renderer\<close>

lemma new_figure_fresh: "new_figure figs \<notin> set figs"
proof -
  have "\<And>a. \<forall>x\<in>set figs. x \<le> fold max figs a"
  proof (induction figs)
    case Nil
    show ?case by simp
  next
    case (Cons f figs)
    have "\<And>b. b \<le> fold max figs b"
      by (induction figs) (auto intro: order_trans [OF max.cobounded2])
    from this [of "max f a"] Cons.IH [of "max f a"] show ?case by auto
  qed
  from this [of 0] show ?thesis by (auto simp: new_figure_def)
qed

text \<open>Where no call of the library raises, the figure opened is closed again.\<close>

lemma latex_to_image_success:
  "be latex_equation output_filename dpi = None \<Longrightarrow>
   latex_to_image be latex_equation output_filename dpi w
   = (Returned, w\<lparr>files := files w @ [output_filename],
                   console := console w @ [MsgConverted output_filename]\<rparr>)"
  using new_figure_fresh [of "figures w"]
  by (simp add: latex_to_image_def Let_def remove1_append)

text \<open>
  C9: every call of \<open>latex_to_image\<close> should leave the set of open figures as it found it,
  also when it fails. Evaluation with a backend whose \<open>savefig\<close> raises for the equation
  \<open>$\frac{$\<close>, starting with no open figure: the call raises and figure 1 is still open.
  (\<open>plt.close(fig)\<close> stands in the \<open>try\<close> body after \<open>plt.savefig\<close>; the \<open>except\<close>
  clause prints and re-raises without closing.)
\<close>

theorem latex_to_image_leaves_figure_open_on_failure:
  "latex_to_image rejecting_backend (dollar # bslash # ''frac{$'') ''out.png'' 300
     \<lparr>figures = [], files = [], console = []\<rparr>
   = (Raised, \<lparr>figures = [1], files = [],
               console = [MsgGenerationError (dollar # bslash # ''frac{$'')]\<rparr>)"
  by code_simp

section \<open>Validation in manual mode\<close>








end
